theory Spec2Isabelle
  imports Main "HOL-Library.AList"
begin

section \<open>The service registry of moleculer (src/registry/registry.js)\<close>

text \<open>
  The registry is a JavaScript object that owns four catalogs and mutates them in place.
  The embedding passes the whole reachable state explicitly as a record and returns the
  updated record. Objects that the code compares by identity or mutates through a shared
  reference (nodes and service items) live in a store indexed by addresses.

  JavaScript values are modelled as follows:
  \<^item> a property that may be \<open>undefined\<close> is an \<open>option\<close>;
  \<^item> a plain object used as a dictionary is an association list in insertion order
    (\<open>_.forIn\<close> walks it in that order), a property assignment is \<open>AList.update\<close>;
    inherited properties play no role;
  \<^item> reading a property of \<open>undefined\<close> throws; the model returns \<open>Inl TypeError\<close>.
    The mutations done before the throw stay in JavaScript; the model reports the error only.
  The logger is an external collaborator and its output is not part of the state.
\<close>

subsection \<open>Data model\<close>

type_synonym ref = nat

datatype error = TypeError

record action =
  action_name :: string
  action_schema :: nat

record event =
  event_name :: string
  event_handler :: nat

text \<open>An endpoint binds one name to the node (by id) and the service item that serves it.\<close>

record 'a endpoint =
  ep_nodeID :: string
  ep_service :: ref
  ep_item :: 'a

text \<open>
  ActionCatalog and EventCatalog: a name is mapped to its EndpointList or is absent.
  The strategy object and the availability flag of an endpoint belong to external
  collaborators and are left out.
\<close>

type_synonym 'a catalog = "string \<Rightarrow> 'a endpoint list option"

text \<open>The service item held by the ServiceCatalog.\<close>

record service =
  service_node :: ref
  service_name :: "string option"
  service_version :: "nat option"
  service_settings :: "string \<Rightarrow> nat option"
  service_actions :: "(string \<times> action) list"
  service_events :: "(string \<times> event) list"

text \<open>
  One element of \<open>serviceList\<close> (the variable \<open>svc\<close> of the source); the local service handed
  to \<open>registerLocalService\<close> has the same fields.
\<close>

record svc =
  svc_name :: "string option"
  svc_version :: "nat option"
  svc_settings :: "string \<Rightarrow> nat option"
  svc_actions :: "(string \<times> action) list option"
  svc_events :: "(string \<times> event) list option"

text \<open>
  The registry with the part of the heap it reaches. A node object is an address; its
  fields \<open>id\<close> and \<open>services\<close> are stored per address. \<open>next_ref\<close> is the next unused address
  for a service item.
\<close>

record registry =
  broker_nodeID :: string
  node_id :: "ref \<Rightarrow> string"
  node_services :: "ref \<Rightarrow> ref list"
  localNode :: ref
  service_heap :: "ref \<Rightarrow> service"
  next_ref :: ref
  services :: "ref list"
  actions :: "action catalog"
  events :: "event catalog"

subsection \<open>EndpointList, ActionCatalog and EventCatalog\<close>

text \<open>
  Modelled from the spec: action-catalog.js, event-catalog.js and the endpoint list are not
  part of the sources at hand. Section 4.4: \<open>add\<close> gets or creates the EndpointList of the
  name and replaces the endpoint of the node in it; \<open>get\<close> returns the EndpointList or
  nothing; \<open>remove\<close> removes the endpoint of the node and deletes the name once its list is
  empty. Section 4.5: \<open>getEndpointByNodeID\<close> is an exact lookup.
\<close>

definition catalog_add :: "'a catalog \<Rightarrow> string \<Rightarrow> string \<Rightarrow> ref \<Rightarrow> 'a \<Rightarrow> 'a catalog" where
  "catalog_add c name nodeID service item =
     (let list = (case c name of None \<Rightarrow> [] | Some eps \<Rightarrow> eps)
      in c(name \<mapsto> filter (\<lambda>e. ep_nodeID e \<noteq> nodeID) list
                      @ [\<lparr>ep_nodeID = nodeID, ep_service = service, ep_item = item\<rparr>]))"

definition catalog_get :: "'a catalog \<Rightarrow> string \<Rightarrow> 'a endpoint list option" where
  "catalog_get c name = c name"

definition catalog_remove :: "'a catalog \<Rightarrow> string \<Rightarrow> string \<Rightarrow> 'a catalog" where
  "catalog_remove c name nodeID =
     (case c name of
        None \<Rightarrow> c
      | Some eps \<Rightarrow>
          (let eps' = filter (\<lambda>e. ep_nodeID e \<noteq> nodeID) eps
           in if eps' = [] then c(name := None) else c(name \<mapsto> eps')))"

definition getEndpointByNodeID :: "'a endpoint list \<Rightarrow> string \<Rightarrow> 'a endpoint option" where
  "getEndpointByNodeID eps nodeID = find (\<lambda>e. ep_nodeID e = nodeID) eps"

subsection \<open>ServiceCatalog\<close>

text \<open>
  Modelled from the spec: service-catalog.js is not part of the sources at hand.
  Section 4.3: services are kept under the key (name, version, node id); \<open>add\<close> creates a
  service item owned by the node; \<open>get\<close> looks a key up; \<open>update\<close> merges the settings only;
  \<open>remove\<close> and \<open>removeAllByNodeID\<close> unregister the actions and events of a service and then
  remove the service item. The catalog is an array (\<open>this.services.services.forEach\<close>);
  \<open>get\<close> returns the first item with the key, and \<open>remove\<close> drops the item that \<open>get\<close> finds.
\<close>

definition service_equals :: "service \<Rightarrow> string option \<Rightarrow> nat option \<Rightarrow> bool" where
  "service_equals s name version \<longleftrightarrow> service_name s = name \<and> service_version s = version"

definition new_service ::
  "ref \<Rightarrow> string option \<Rightarrow> nat option \<Rightarrow> (string \<Rightarrow> nat option) \<Rightarrow> service" where
  "new_service node name version settings =
     \<lparr>service_node = node, service_name = name, service_version = version,
      service_settings = settings, service_actions = [], service_events = []\<rparr>"

definition ServiceCatalog_add ::
  "registry \<Rightarrow> ref \<Rightarrow> string option \<Rightarrow> nat option \<Rightarrow> (string \<Rightarrow> nat option) \<Rightarrow> registry \<times> ref" where
  "ServiceCatalog_add r node name version settings =
     (let p = next_ref r
      in (r\<lparr>service_heap := (service_heap r)
               (p := new_service node name version settings),
             next_ref := Suc p,
             services := services r @ [p]\<rparr>, p))"

definition service_matches :: "registry \<Rightarrow> string option \<Rightarrow> nat option \<Rightarrow> string \<Rightarrow> ref \<Rightarrow> bool" where
  "service_matches r name version nodeID p \<longleftrightarrow>
     service_equals (service_heap r p) name version
     \<and> node_id r (service_node (service_heap r p)) = nodeID"

definition ServiceCatalog_get ::
  "registry \<Rightarrow> string option \<Rightarrow> nat option \<Rightarrow> string \<Rightarrow> ref option" where
  "ServiceCatalog_get r name version nodeID =
     find (service_matches r name version nodeID) (services r)"

definition service_update :: "registry \<Rightarrow> ref \<Rightarrow> svc \<Rightarrow> registry" where
  "service_update r p d =
     r\<lparr>service_heap := (service_heap r)
         (p := (service_heap r p)\<lparr>service_settings :=
                  service_settings (service_heap r p) ++ svc_settings d\<rparr>)\<rparr>"

definition service_addAction :: "registry \<Rightarrow> ref \<Rightarrow> action \<Rightarrow> registry" where
  "service_addAction r p a =
     r\<lparr>service_heap := (service_heap r)
         (p := (service_heap r p)\<lparr>service_actions :=
                  AList.update (action_name a) a (service_actions (service_heap r p))\<rparr>)\<rparr>"

definition service_addEvent :: "registry \<Rightarrow> ref \<Rightarrow> event \<Rightarrow> registry" where
  "service_addEvent r p e =
     r\<lparr>service_heap := (service_heap r)
         (p := (service_heap r p)\<lparr>service_events :=
                  AList.update (event_name e) e (service_events (service_heap r p))\<rparr>)\<rparr>"

definition ActionCatalog_remove :: "registry \<Rightarrow> string \<Rightarrow> string \<Rightarrow> registry" where
  "ActionCatalog_remove r name nodeID = r\<lparr>actions := catalog_remove (actions r) name nodeID\<rparr>"

definition EventCatalog_remove :: "registry \<Rightarrow> string \<Rightarrow> string \<Rightarrow> registry" where
  "EventCatalog_remove r name nodeID = r\<lparr>events := catalog_remove (events r) name nodeID\<rparr>"

text \<open>Unregister every action and event of the service item \<open>p\<close>, then drop the item.\<close>

definition remove_service :: "registry \<Rightarrow> ref \<Rightarrow> registry" where
  "remove_service r p =
     (let nodeID = node_id r (service_node (service_heap r p));
          r1 = fold (\<lambda>(name, a) r. ActionCatalog_remove r name nodeID)
                 (service_actions (service_heap r p)) r;
          r2 = fold (\<lambda>(name, e) r. EventCatalog_remove r name nodeID)
                 (service_events (service_heap r p)) r1
      in r2\<lparr>services := removeAll p (services r2)\<rparr>)"

definition ServiceCatalog_remove ::
  "registry \<Rightarrow> string option \<Rightarrow> nat option \<Rightarrow> string \<Rightarrow> registry" where
  "ServiceCatalog_remove r name version nodeID =
     (case ServiceCatalog_get r name version nodeID of
        None \<Rightarrow> r
      | Some p \<Rightarrow> remove_service r p)"

definition ServiceCatalog_removeAllByNodeID :: "registry \<Rightarrow> string \<Rightarrow> registry" where
  "ServiceCatalog_removeAllByNodeID r nodeID =
     fold (\<lambda>p r. remove_service r p)
       (filter (\<lambda>p. node_id r (service_node (service_heap r p)) = nodeID) (services r)) r"

subsection \<open>Registry\<close>

text \<open>
  The constructor, lines 31 to 44: empty catalogs. The local node is the object at address 0
  and carries the broker's id; \<open>ids\<close> gives the ids of the other node objects.
\<close>

definition Registry :: "string \<Rightarrow> (ref \<Rightarrow> string) \<Rightarrow> registry" where
  "Registry nodeID ids =
     \<lparr>broker_nodeID = nodeID, node_id = ids(0 := nodeID), node_services = (\<lambda>n. []),
      localNode = 0, service_heap = (\<lambda>p. new_service 0 None None Map.empty), next_ref = 0,
      services = [], actions = Map.empty, events = Map.empty\<rparr>"

text \<open>\<open>registerActions\<close>, lines 145 to 150; \<open>this.actions.add\<close> is the catalog's upsert.\<close>

definition ActionCatalog_add :: "registry \<Rightarrow> ref \<Rightarrow> ref \<Rightarrow> action \<Rightarrow> registry" where
  "ActionCatalog_add r node service a =
     r\<lparr>actions := catalog_add (actions r) (action_name a) (node_id r node) service a\<rparr>"

definition EventCatalog_add :: "registry \<Rightarrow> ref \<Rightarrow> ref \<Rightarrow> event \<Rightarrow> registry" where
  "EventCatalog_add r node service e =
     r\<lparr>events := catalog_add (events r) (event_name e) (node_id r node) service e\<rparr>"

definition registerActions :: "registry \<Rightarrow> ref \<Rightarrow> ref \<Rightarrow> (string \<times> action) list \<Rightarrow> registry" where
  "registerActions r node service as =
     fold (\<lambda>(key, a) r. service_addAction (ActionCatalog_add r node service a) service a) as r"

text \<open>\<open>registerEvents\<close>, lines 218 to 223.\<close>

definition registerEvents :: "registry \<Rightarrow> ref \<Rightarrow> ref \<Rightarrow> (string \<times> event) list \<Rightarrow> registry" where
  "registerEvents r node service es =
     fold (\<lambda>(key, e) r. service_addEvent (EventCatalog_add r node service e) service e) es r"

text \<open>Lines 159 to 161 and 171 to 175.\<close>

definition getActionEndpoints :: "registry \<Rightarrow> string \<Rightarrow> action endpoint list option" where
  "getActionEndpoints r actionName = catalog_get (actions r) actionName"

definition getActionEndpointByNodeId :: "registry \<Rightarrow> string \<Rightarrow> string \<Rightarrow> action endpoint option" where
  "getActionEndpointByNodeId r actionName nodeID =
     (case catalog_get (actions r) actionName of
        Some list \<Rightarrow> getEndpointByNodeID list nodeID
      | None \<Rightarrow> None)"

text \<open>
  \<open>unregisterService\<close>, lines 185 to 187. The third argument is optional;
  \<open>nodeID || this.broker.nodeID\<close> takes the broker's id when it is \<open>undefined\<close> or the
  empty string.
\<close>

definition unregisterService ::
  "registry \<Rightarrow> string option \<Rightarrow> nat option \<Rightarrow> string option \<Rightarrow> registry" where
  "unregisterService r name version nodeID =
     ServiceCatalog_remove r name version
       (case nodeID of
          None \<Rightarrow> broker_nodeID r
        | Some n \<Rightarrow> if n = [] then broker_nodeID r else n)"

definition unregisterServicesByNode :: "registry \<Rightarrow> string \<Rightarrow> registry" where
  "unregisterServicesByNode r nodeID = ServiceCatalog_removeAllByNodeID r nodeID"

definition unregisterAction :: "registry \<Rightarrow> ref \<Rightarrow> string \<Rightarrow> registry" where
  "unregisterAction r node actionName = ActionCatalog_remove r actionName (node_id r node)"

definition unregisterEvent :: "registry \<Rightarrow> ref \<Rightarrow> string \<Rightarrow> registry" where
  "unregisterEvent r node eventName = EventCatalog_remove r eventName (node_id r node)"

text \<open>\<open>registerLocalService\<close>, lines 61 to 74.\<close>

definition registerLocalService :: "registry \<Rightarrow> svc \<Rightarrow> registry" where
  "registerLocalService r d =
     (let (r1, service) =
            ServiceCatalog_add r (localNode r) (svc_name d) (svc_version d) (svc_settings d);
          r2 = (case svc_actions d of
                  Some as \<Rightarrow> registerActions r1 (localNode r1) service as
                | None \<Rightarrow> r1);
          r3 = (case svc_events d of
                  Some es \<Rightarrow> registerEvents r2 (localNode r2) service es
                | None \<Rightarrow> r2)
      in r3\<lparr>node_services := (node_services r3)
               (localNode r3 := node_services r3 (localNode r3) @ [service])\<rparr>)"

text \<open>
  \<open>registerServices\<close>, lines 83 to 135. The two \<open>_.forIn\<close> loops over the copies of the
  previous maps read \<open>svc.actions[name]\<close> and \<open>svc.events[name]\<close>; with the map
  \<open>undefined\<close> the first iteration throws.
\<close>

fun removeOldActions ::
  "registry \<Rightarrow> ref \<Rightarrow> (string \<times> action) list option \<Rightarrow> (string \<times> action) list \<Rightarrow> error + registry" where
  "removeOldActions r node new [] = Inr r"
| "removeOldActions r node new ((name, a) # prev) =
     (case new of
        None \<Rightarrow> Inl TypeError
      | Some as \<Rightarrow>
          removeOldActions
            (if map_of as name = None then unregisterAction r node name else r) node new prev)"

fun removeOldEvents ::
  "registry \<Rightarrow> ref \<Rightarrow> (string \<times> event) list option \<Rightarrow> (string \<times> event) list \<Rightarrow> error + registry" where
  "removeOldEvents r node new [] = Inr r"
| "removeOldEvents r node new ((name, e) # prev) =
     (case new of
        None \<Rightarrow> Inl TypeError
      | Some es \<Rightarrow>
          removeOldEvents
            (if map_of es name = None then unregisterEvent r node name else r) node new prev)"

text \<open>The body of the first \<open>forEach\<close>, lines 85 to 117, for one descriptor.\<close>

definition registerService :: "registry \<Rightarrow> ref \<Rightarrow> svc \<Rightarrow> error + registry" where
  "registerService r node d =
     (let (r1, service, prevActions, prevEvents) =
            (case ServiceCatalog_get r (svc_name d) (svc_version d) (node_id r node) of
               None \<Rightarrow>
                 (let (r', p) =
                        ServiceCatalog_add r node (svc_name d) (svc_version d) (svc_settings d)
                  in (r', p, None, None))
             | Some p \<Rightarrow>
                 (service_update r p d, p,
                  Some (service_actions (service_heap r p)),
                  Some (service_events (service_heap r p))));
          r2 = (case svc_actions d of
                  Some as \<Rightarrow> registerActions r1 node service as
                | None \<Rightarrow> r1)
      in case (case prevActions of
                 Some prev \<Rightarrow> removeOldActions r2 node (svc_actions d) prev
               | None \<Rightarrow> Inr r2) of
           Inl err \<Rightarrow> Inl err
         | Inr r3 \<Rightarrow>
             (let r4 = (case svc_events d of
                          Some es \<Rightarrow> registerEvents r3 node service es
                        | None \<Rightarrow> r3)
              in case prevEvents of
                   Some prev \<Rightarrow> removeOldEvents r4 node (svc_events d) prev
                 | None \<Rightarrow> Inr r4))"

fun registerEach :: "registry \<Rightarrow> ref \<Rightarrow> svc list \<Rightarrow> error + registry" where
  "registerEach r node [] = Inr r"
| "registerEach r node (d # ds) =
     (case registerService r node d of
        Inl err \<Rightarrow> Inl err
      | Inr r' \<Rightarrow> registerEach r' node ds)"

text \<open>
  The second \<open>forEach\<close>, lines 121 to 134. \<open>service.node != node\<close> compares two objects, that
  is two addresses. First the callback for one service item, lines 122 to 133.
\<close>

definition visitService :: "registry \<Rightarrow> ref \<Rightarrow> svc list \<Rightarrow> ref \<Rightarrow> registry" where
  "visitService r node serviceList p =
     (let service = service_heap r p
      in if service_node service \<noteq> node then r
         else
           (let exist = list_ex (\<lambda>d. service_equals service (svc_name d) (svc_version d))
                          serviceList
            in if \<not> exist
               then unregisterService r (service_name service) (service_version service)
                      (Some (node_id r node))
               else r))"

text \<open>
  \<open>forEach\<close> reads the length of \<open>this.services.services\<close> once and then takes the indices in
  ascending order; it reads each item from the array as it is at that moment and passes over
  an index that is no longer in the array. The array is the one that the removal of line 132
  shrinks: after a removal the items behind the removed one move down by one index, so the
  item that followed it is not visited.
\<close>

definition removeOldServices :: "registry \<Rightarrow> ref \<Rightarrow> svc list \<Rightarrow> registry" where
  "removeOldServices r node serviceList =
     fold (\<lambda>k r. if k < length (services r)
                   then visitService r node serviceList (services r ! k) else r)
       [0..<length (services r)] r"

definition registerServices :: "registry \<Rightarrow> ref \<Rightarrow> svc list \<Rightarrow> error + registry" where
  "registerServices r node serviceList =
     (case registerEach r node serviceList of
        Inl err \<Rightarrow> Inl err
      | Inr r' \<Rightarrow> Inr (removeOldServices r' node serviceList))"

subsection \<open>Notions used to state the properties\<close>

text \<open>The endpoint recorded in a catalog for a node id under a name, if any.\<close>

definition endpoint_at :: "'a catalog \<Rightarrow> string \<Rightarrow> string \<Rightarrow> 'a endpoint option" where
  "endpoint_at c name nodeID =
     (case c name of None \<Rightarrow> None | Some eps \<Rightarrow> getEndpointByNodeID eps nodeID)"

text \<open>The addresses of the recorded service items have been handed out by the allocator.\<close>

definition allocated :: "registry \<Rightarrow> bool" where
  "allocated r \<longleftrightarrow> (\<forall>p\<in>set (services r). p < next_ref r)"

text \<open>The EndpointList of a name holds exactly one endpoint of a node id.\<close>

definition one_endpoint :: "'a catalog \<Rightarrow> string \<Rightarrow> string \<Rightarrow> bool" where
  "one_endpoint c n i \<longleftrightarrow>
     (\<exists>eps. c n = Some eps \<and> length (filter (\<lambda>e. ep_nodeID e = i) eps) = 1)"

text \<open>The key of a descriptor and of a recorded service item: name and version.\<close>

definition svc_key :: "svc \<Rightarrow> string option \<times> nat option" where
  "svc_key d = (svc_name d, svc_version d)"

definition service_key :: "registry \<Rightarrow> ref \<Rightarrow> string option \<times> nat option" where
  "service_key r p = (service_name (service_heap r p), service_version (service_heap r p))"

text \<open>The names under which a descriptor lists its actions and events.\<close>

definition action_names :: "svc \<Rightarrow> string set" where
  "action_names d = (case svc_actions d of None \<Rightarrow> {} | Some as \<Rightarrow> fst ` set as)"

definition event_names :: "svc \<Rightarrow> string set" where
  "event_names d = (case svc_events d of None \<Rightarrow> {} | Some es \<Rightarrow> fst ` set es)"

text \<open>The names that a service item holds in its own action and event maps.\<close>

definition held_actions :: "registry \<Rightarrow> ref \<Rightarrow> string set" where
  "held_actions r p = fst ` set (service_actions (service_heap r p))"

definition held_events :: "registry \<Rightarrow> ref \<Rightarrow> string set" where
  "held_events r p = fst ` set (service_events (service_heap r p))"

text \<open>
  The recorded services of a node id: the addresses are allocated and occur once, every
  service under the id of \<open>node\<close> is owned by the object \<open>node\<close> itself, and no two of them
  have the same name and version.
\<close>

definition node_consistent :: "registry \<Rightarrow> ref \<Rightarrow> bool" where
  "node_consistent r node \<longleftrightarrow>
     allocated r \<and> distinct (services r)
     \<and> (\<forall>p\<in>set (services r).
           node_id r (service_node (service_heap r p)) = node_id r node
           \<longrightarrow> service_node (service_heap r p) = node)
     \<and> (\<forall>p\<in>set (services r). \<forall>q\<in>set (services r).
           service_node (service_heap r p) = node \<and> service_node (service_heap r q) = node
           \<and> service_key r p = service_key r q \<longrightarrow> p = q)"

text \<open>
  The names that the service item found for a descriptor holds before the descriptor is
  processed.
\<close>

definition prev_actions :: "registry \<Rightarrow> ref \<Rightarrow> svc \<Rightarrow> string set" where
  "prev_actions r node d =
     (case ServiceCatalog_get r (svc_name d) (svc_version d) (node_id r node) of
        None \<Rightarrow> {} | Some p \<Rightarrow> held_actions r p)"

definition prev_events :: "registry \<Rightarrow> ref \<Rightarrow> svc \<Rightarrow> string set" where
  "prev_events r node d =
     (case ServiceCatalog_get r (svc_name d) (svc_version d) (node_id r node) of
        None \<Rightarrow> {} | Some p \<Rightarrow> held_events r p)"

text \<open>
  A service item that the second loop removes: owned by the node object and absent from the
  list.
\<close>

definition stale :: "registry \<Rightarrow> ref \<Rightarrow> svc list \<Rightarrow> ref \<Rightarrow> bool" where
  "stale r node S q \<longleftrightarrow>
     service_node (service_heap r q) = node
     \<and> \<not> list_ex (\<lambda>d. service_equals (service_heap r q) (svc_name d) (svc_version d)) S"

text \<open>Every endpoint of the node belongs to a name that one of its recorded services holds.\<close>

definition no_orphans :: "registry \<Rightarrow> ref \<Rightarrow> bool" where
  "no_orphans r node \<longleftrightarrow>
     (\<forall>n. endpoint_at (actions r) n (node_id r node) \<noteq> None
          \<longrightarrow> (\<exists>p\<in>set (services r). service_node (service_heap r p) = node
                 \<and> n \<in> held_actions r p))
     \<and> (\<forall>n. endpoint_at (events r) n (node_id r node) \<noteq> None
          \<longrightarrow> (\<exists>p\<in>set (services r). service_node (service_heap r p) = node
                 \<and> n \<in> held_events r p))"

text \<open>
  No descriptor names an action or event that a recorded service of the node with another
  key holds.
\<close>

definition names_not_shared :: "registry \<Rightarrow> ref \<Rightarrow> svc list \<Rightarrow> bool" where
  "names_not_shared r node S \<longleftrightarrow>
     (\<forall>p\<in>set (services r). \<forall>d\<in>set S.
        service_node (service_heap r p) = node \<and> service_key r p \<noteq> svc_key d
        \<longrightarrow> held_actions r p \<inter> action_names d = {}
            \<and> held_events r p \<inter> event_names d = {})"

subsection \<open>Scenario data\<close>

text \<open>
  Scenario data, after section 8 of the specification: the local node is \<open>local\<close>, the node
  objects at addresses 1 and 2 are the remote nodes \<open>A\<close> and \<open>B\<close>, and the object at address 3
  is a second node object that carries the local node's id. \<open>math\<close> and \<open>calc\<close> are service
  descriptors, \<open>nameless\<close> is a descriptor without a name.
\<close>

definition scenario_ids :: "ref \<Rightarrow> string" where
  "scenario_ids = (\<lambda>n. ''local'')(1 := ''A'', 2 := ''B'')"

definition add_action :: action where
  "add_action = \<lparr>action_name = ''add'', action_schema = 0\<rparr>"

definition sub_action :: action where
  "sub_action = \<lparr>action_name = ''sub'', action_schema = 0\<rparr>"

definition math :: "(string \<times> action) list option \<Rightarrow> svc" where
  "math as = \<lparr>svc_name = Some ''math'', svc_version = Some 1, svc_settings = Map.empty,
               svc_actions = as, svc_events = Some []\<rparr>"

definition local_math :: registry where
  "local_math = registerLocalService (Registry ''local'' scenario_ids)
                  (math (Some [(''add'', add_action)]))"

definition nameless :: svc where
  "nameless = \<lparr>svc_name = None, svc_version = Some 1, svc_settings = Map.empty,
                svc_actions = Some [(''ping'', \<lparr>action_name = ''ping'', action_schema = 0\<rparr>)],
                svc_events = Some []\<rparr>"

definition foreign_then_local :: registry where
  "foreign_then_local =
     (case registerServices (Registry ''local'' scenario_ids) 3
             [math (Some [(''add'', add_action)])] of
        Inr r \<Rightarrow> registerLocalService r (math (Some [(''add'', add_action)]))
      | Inl err \<Rightarrow> Registry ''local'' scenario_ids)"

definition scenario_AB :: registry where
  "scenario_AB =
     (case registerServices (Registry ''local'' scenario_ids) 1
             [math (Some [(''add'', add_action)])] of
        Inl err \<Rightarrow> Registry ''local'' scenario_ids
      | Inr rA \<Rightarrow>
          (case registerServices rA 2
                  [math (Some [(''add'', add_action), (''sub'', sub_action)])] of
             Inl err \<Rightarrow> rA
           | Inr rB \<Rightarrow> rB))"


definition calc :: "(string \<times> action) list option \<Rightarrow> svc" where
  "calc as = \<lparr>svc_name = Some ''calc'', svc_version = Some 1, svc_settings = Map.empty,
               svc_actions = as, svc_events = Some []\<rparr>"



section \<open>Lemmas\<close>

subsection \<open>Lookups in a list and in a catalog\<close>







lemma getActionEndpointByNodeId_eq:
  "getActionEndpointByNodeId r n i = endpoint_at (actions r) n i"
  by (simp add: getActionEndpointByNodeId_def endpoint_at_def catalog_get_def split: option.splits)

lemma catalog_add_no_empty:
  "c n' \<noteq> Some [] \<Longrightarrow> catalog_add c n i p a n' \<noteq> Some []"
  by (simp add: catalog_add_def)

lemma catalog_remove_no_empty:
  "c n' \<noteq> Some [] \<Longrightarrow> catalog_remove c n i n' \<noteq> Some []"
  by (simp add: catalog_remove_def Let_def split: option.splits)

subsection \<open>The registry functions as updates of the state\<close>

lemma registerActions_eq:
  "registerActions r node p as =
     r\<lparr>actions := fold (\<lambda>(k, a) c. catalog_add c (action_name a) (node_id r node) p a) as (actions r),
       service_heap := (service_heap r)
         (p := (service_heap r p)\<lparr>service_actions :=
            fold (\<lambda>(k, a). AList.update (action_name a) a) as (service_actions (service_heap r p))\<rparr>)\<rparr>"
  unfolding registerActions_def
  by (induction as arbitrary: r) (auto simp: ActionCatalog_add_def service_addAction_def)

lemma registerEvents_eq:
  "registerEvents r node p es =
     r\<lparr>events := fold (\<lambda>(k, e) c. catalog_add c (event_name e) (node_id r node) p e) es (events r),
       service_heap := (service_heap r)
         (p := (service_heap r p)\<lparr>service_events :=
            fold (\<lambda>(k, e). AList.update (event_name e) e) es (service_events (service_heap r p))\<rparr>)\<rparr>"
  unfolding registerEvents_def
  by (induction es arbitrary: r) (auto simp: EventCatalog_add_def service_addEvent_def)

lemma fold_ActionCatalog_remove:
  "fold (\<lambda>(name, a) r. ActionCatalog_remove r name i) xs r =
     r\<lparr>actions := fold (\<lambda>(name, a) c. catalog_remove c name i) xs (actions r)\<rparr>"
  by (induction xs arbitrary: r) (auto simp: ActionCatalog_remove_def)

lemma fold_EventCatalog_remove:
  "fold (\<lambda>(name, a) r. EventCatalog_remove r name i) xs r =
     r\<lparr>events := fold (\<lambda>(name, a) c. catalog_remove c name i) xs (events r)\<rparr>"
  by (induction xs arbitrary: r) (auto simp: EventCatalog_remove_def)

lemma remove_service_eq:
  "remove_service r p =
     r\<lparr>actions := fold (\<lambda>(name, a) c. catalog_remove c name (node_id r (service_node (service_heap r p))))
                   (service_actions (service_heap r p)) (actions r),
       events := fold (\<lambda>(name, a) c. catalog_remove c name (node_id r (service_node (service_heap r p))))
                   (service_events (service_heap r p)) (events r),
       services := removeAll p (services r)\<rparr>"
  by (simp add: remove_service_def Let_def fold_ActionCatalog_remove fold_EventCatalog_remove)

lemma node_id_unregister [simp]:
  "node_id (unregisterAction r node a) = node_id r"
  "node_id (unregisterEvent r node a) = node_id r"
  by (simp_all add: unregisterAction_def unregisterEvent_def ActionCatalog_remove_def
        EventCatalog_remove_def)

lemma removeOldActions_Some_aux:
  "node_id r node = i \<Longrightarrow> removeOldActions r node (Some as) prev =
     Inr (r\<lparr>actions := fold (\<lambda>(name, a) c. if map_of as name = None
                                 then catalog_remove c name i else c) prev (actions r)\<rparr>)"
  by (induction prev arbitrary: r) (auto simp: unregisterAction_def ActionCatalog_remove_def)

lemmas removeOldActions_Some = removeOldActions_Some_aux [OF refl]

lemma removeOldActions_None:
  "removeOldActions r node None prev = (if prev = [] then Inr r else Inl TypeError)"
  by (cases prev) auto

lemma removeOldEvents_Some_aux:
  "node_id r node = i \<Longrightarrow> removeOldEvents r node (Some es) prev =
     Inr (r\<lparr>events := fold (\<lambda>(name, a) c. if map_of es name = None
                                 then catalog_remove c name i else c) prev (events r)\<rparr>)"
  by (induction prev arbitrary: r) (auto simp: unregisterEvent_def EventCatalog_remove_def)

lemmas removeOldEvents_Some = removeOldEvents_Some_aux [OF refl]

lemma removeOldEvents_None:
  "removeOldEvents r node None prev = (if prev = [] then Inr r else Inl TypeError)"
  by (cases prev) auto

lemma find_Some_mem: "find P xs = Some x \<Longrightarrow> x \<in> set xs \<and> P x"
  by (induction xs) (auto split: if_splits)

lemma filter_id_find_None:
  "find (\<lambda>e. f e = i) xs = None \<Longrightarrow> filter (\<lambda>e. f e \<noteq> i) xs = xs"
  by (induction xs) (auto split: if_splits)

lemma catalog_remove_absent:
  "endpoint_at c name i = None \<Longrightarrow> c name \<noteq> Some [] \<Longrightarrow> catalog_remove c name i = c"
  by (auto simp: endpoint_at_def catalog_remove_def getEndpointByNodeID_def Let_def
        filter_id_find_None map_upd_triv split: option.splits)

lemma registerLocalService_fields:
  "services (registerLocalService r d) = services r @ [next_ref r]"
  "next_ref (registerLocalService r d) = Suc (next_ref r)"
  "localNode (registerLocalService r d) = localNode r"
  "node_id (registerLocalService r d) = node_id r"
  "broker_nodeID (registerLocalService r d) = broker_nodeID r"
  "node_services (registerLocalService r d) =
     (node_services r)(localNode r := node_services r (localNode r) @ [next_ref r])"
  by (auto simp: registerLocalService_def ServiceCatalog_add_def Let_def registerActions_eq
        registerEvents_eq split: option.splits)

lemma registerLocalService_heap:
  "q \<noteq> next_ref r \<Longrightarrow> service_heap (registerLocalService r d) q = service_heap r q"
  "service_node (service_heap (registerLocalService r d) (next_ref r)) = localNode r"
  "service_name (service_heap (registerLocalService r d) (next_ref r)) = svc_name d"
  "service_version (service_heap (registerLocalService r d) (next_ref r)) = svc_version d"
  by (auto simp: registerLocalService_def ServiceCatalog_add_def Let_def registerActions_eq
        registerEvents_eq new_service_def split: option.splits)

subsection \<open>What one descriptor changes in the service catalog\<close>

lemma removeOldActions_Inr:
  assumes "removeOldActions r node new prev = Inr r'"
  shows "services r' = services r" and "service_heap r' = service_heap r"
    and "next_ref r' = next_ref r" and "node_id r' = node_id r"
    and "broker_nodeID r' = broker_nodeID r" and "events r' = events r"
    and "localNode r' = localNode r" and "node_services r' = node_services r"
  using assms
  by (cases new; auto simp: removeOldActions_None removeOldActions_Some split: if_splits)+

lemma removeOldEvents_Inr:
  assumes "removeOldEvents r node new prev = Inr r'"
  shows "services r' = services r" and "service_heap r' = service_heap r"
    and "next_ref r' = next_ref r" and "node_id r' = node_id r"
    and "broker_nodeID r' = broker_nodeID r" and "actions r' = actions r"
    and "localNode r' = localNode r" and "node_services r' = node_services r"
  using assms
  by (cases new; auto simp: removeOldEvents_None removeOldEvents_Some split: if_splits)+

lemma registerService_Inr_new:
  assumes "registerService r node d = Inr r'"
      and "ServiceCatalog_get r (svc_name d) (svc_version d) (node_id r node) = None"
  shows "services r' = services r @ [next_ref r]"
    and "next_ref r' = Suc (next_ref r)"
    and "q \<noteq> next_ref r \<Longrightarrow> service_heap r' q = service_heap r q"
    and "service_name (service_heap r' (next_ref r)) = svc_name d"
    and "service_version (service_heap r' (next_ref r)) = svc_version d"
    and "service_node (service_heap r' (next_ref r)) = node"
    and "node_id r' = node_id r"
    and "broker_nodeID r' = broker_nodeID r"
  using assms
  by (auto simp: registerService_def ServiceCatalog_add_def Let_def registerActions_eq
        registerEvents_eq new_service_def split: option.splits sum.splits)

lemma registerService_Inr_existing:
  assumes "registerService r node d = Inr r'"
      and "ServiceCatalog_get r (svc_name d) (svc_version d) (node_id r node) = Some p"
  shows "services r' = services r"
    and "next_ref r' = next_ref r"
    and "q \<noteq> p \<Longrightarrow> service_heap r' q = service_heap r q"
    and "service_name (service_heap r' p) = service_name (service_heap r p)"
    and "service_version (service_heap r' p) = service_version (service_heap r p)"
    and "service_node (service_heap r' p) = service_node (service_heap r p)"
    and "node_id r' = node_id r"
    and "broker_nodeID r' = broker_nodeID r"
  using assms
  by (auto simp: registerService_def Let_def registerActions_eq service_update_def
        registerEvents_eq removeOldActions_Inr removeOldEvents_Inr
        split: option.splits sum.splits)

subsection \<open>Recorded services through a reconciliation\<close>

lemma ServiceCatalog_get_Some:
  "ServiceCatalog_get r n v i = Some p \<Longrightarrow> p \<in> set (services r) \<and> service_matches r n v i p"
  unfolding ServiceCatalog_get_def by (rule find_Some_mem)

lemma service_matches_cong:
  "node_id r' = node_id r \<Longrightarrow>
   service_name (service_heap r' q) = service_name (service_heap r q) \<Longrightarrow>
   service_version (service_heap r' q) = service_version (service_heap r q) \<Longrightarrow>
   service_node (service_heap r' q) = service_node (service_heap r q) \<Longrightarrow>
   service_matches r' n v i q = service_matches r n v i q"
  by (simp add: service_matches_def service_equals_def)

lemma registerService_node_id:
  "registerService r node d = Inr r' \<Longrightarrow> node_id r' = node_id r"
  by (cases "ServiceCatalog_get r (svc_name d) (svc_version d) (node_id r node)")
     (auto dest: registerService_Inr_new(7) registerService_Inr_existing(7))

lemma remove_service_fields:
  "services (remove_service r p) = removeAll p (services r)"
  "service_heap (remove_service r p) = service_heap r"
  "node_id (remove_service r p) = node_id r"
  "next_ref (remove_service r p) = next_ref r"
  "broker_nodeID (remove_service r p) = broker_nodeID r"
  by (simp_all add: remove_service_eq)

lemma service_matches_remove_service [simp]:
  "service_matches (remove_service r p) = service_matches r"
  by (auto simp: service_matches_def remove_service_fields fun_eq_iff)

lemma registerService_total:
  "svc_actions d \<noteq> None \<Longrightarrow> svc_events d \<noteq> None \<Longrightarrow> \<exists>r'. registerService r node d = Inr r'"
  by (auto simp: registerService_def Let_def removeOldActions_Some removeOldEvents_Some
        split: option.splits prod.splits)

lemma registerEach_total:
  "\<forall>d\<in>set ds. svc_actions d \<noteq> None \<and> svc_events d \<noteq> None \<Longrightarrow>
   \<exists>r'. registerEach r node ds = Inr r'"
proof (induction ds arbitrary: r)
  case Nil
  then show ?case by simp
next
  case (Cons d ds)
  then obtain r1 where "registerService r node d = Inr r1"
    using registerService_total [of d r node] by auto
  with Cons show ?case by auto
qed

lemma unregisterService_heap [simp]:
  "service_heap (unregisterService r n v i) = service_heap r"
  by (simp add: unregisterService_def ServiceCatalog_remove_def remove_service_fields
        split: option.splits)

lemma unregisterService_keeps_other:
  assumes "p \<in> set (services r)"
      and "\<not> service_equals (service_heap r p) n v"
  shows "p \<in> set (services (unregisterService r n v i))"
proof -
  let ?i = "case i of None \<Rightarrow> broker_nodeID r | Some n \<Rightarrow> if n = [] then broker_nodeID r else n"
  show ?thesis
  proof (cases "ServiceCatalog_get r n v ?i")
    case None
    then show ?thesis using assms by (simp add: unregisterService_def ServiceCatalog_remove_def)
  next
    case (Some x)
    then have "service_equals (service_heap r x) n v"
      by (auto dest: ServiceCatalog_get_Some simp: service_matches_def)
    with assms have "x \<noteq> p" by auto
    with Some assms show ?thesis
      by (simp add: unregisterService_def ServiceCatalog_remove_def remove_service_fields)
  qed
qed

subsection \<open>Endpoints through the loops over the maps\<close>






lemma registerService_new_catalogs:
  assumes "ServiceCatalog_get r (svc_name d) (svc_version d) (node_id r node) = None"
      and "svc_actions d = Some as" and "svc_events d = Some es"
  shows "\<exists>r'. registerService r node d = Inr r'
     \<and> actions r' =
          fold (\<lambda>(k, a) c. catalog_add c (action_name a) (node_id r node) (next_ref r) a) as
            (actions r)
     \<and> events r' =
          fold (\<lambda>(k, a) c. catalog_add c (event_name a) (node_id r node) (next_ref r) a) es
            (events r)"
  using assms
  by (simp add: registerService_def Let_def registerActions_eq registerEvents_eq
        ServiceCatalog_add_def)



subsection \<open>Folding a list of keyed updates twice\<close>

text \<open>
  A fold of updates, each with a key, gives the same state when it is run a second time,
  provided that an update absorbs an earlier update of its key and that updates of different
  keys commute once the key of the earlier one is present in the state.
\<close>

lemma fold_present_key:
  assumes P1: "\<And>x s. present (key x) (step x s)"
      and P2: "\<And>x k s. present k s \<Longrightarrow> present k (step x s)"
  shows "y \<in> set ys \<or> present (key y) s \<Longrightarrow> present (key y) (fold step ys s)"
proof (induction ys arbitrary: s)
  case Nil
  then show ?case by simp
next
  case (Cons z zs)
  from Cons.prems have "y \<in> set zs \<or> present (key y) (step z s)"
    using P1 [of z s] P2 [of "key y" s z] by auto
  from Cons.IH [OF this] show ?case by simp
qed

lemma fold_absorb:
  assumes C: "\<And>x y s. key x = key y \<Longrightarrow> step x (step y s) = step x s"
      and B: "\<And>x y s. key x \<noteq> key y \<Longrightarrow> present (key y) s
                \<Longrightarrow> step x (step y s) = step y (step x s)"
      and P2: "\<And>x k s. present k s \<Longrightarrow> present k (step x s)"
  shows "\<forall>y\<in>set ys. present (key y) t \<Longrightarrow>
         step x (fold step ys (step x t)) = step x (fold step ys t)"
proof (induction ys arbitrary: t)
  case Nil
  then show ?case by (simp add: C)
next
  case (Cons y ys)
  show ?case
  proof (cases "key y = key x")
    case True
    then show ?thesis by (simp add: C)
  next
    case False
    have "step y (step x t) = step x (step y t)"
      using False Cons.prems by (intro B [symmetric]) auto
    moreover have "step x (fold step ys (step x (step y t))) = step x (fold step ys (step y t))"
      using Cons.prems by (intro Cons.IH) (auto intro: P2)
    ultimately show ?thesis by simp
  qed
qed

lemma fold_twice:
  assumes C: "\<And>x y s. key x = key y \<Longrightarrow> step x (step y s) = step x s"
      and B: "\<And>x y s. key x \<noteq> key y \<Longrightarrow> present (key y) s
                \<Longrightarrow> step x (step y s) = step y (step x s)"
      and P1: "\<And>x s. present (key x) (step x s)"
      and P2: "\<And>x k s. present k s \<Longrightarrow> present k (step x s)"
  shows "fold step xs (fold step xs s) = fold step xs s"
proof (induction xs arbitrary: s rule: rev_induct)
  case Nil
  then show ?case by simp
next
  case (snoc x xs)
  have "present (key y) (fold step xs s)" if "y \<in> set xs" for y
    using that P1 P2 by (intro fold_present_key [where present = present and key = key]) auto
  then have "\<forall>y\<in>set xs. present (key y) (fold step xs s)" by blast
  with C B P2
  have "step x (fold step xs (step x (fold step xs s)))
               = step x (fold step xs (fold step xs s))"
    by (intro fold_absorb [where present = present and key = key]) auto
  with snoc show ?case by simp
qed

lemma catalog_add_same:
  "catalog_add (catalog_add c n i p b) n i p a = catalog_add c n i p a"
  by (simp add: catalog_add_def)

lemma catalog_add_swap:
  "n \<noteq> n' \<Longrightarrow> catalog_add (catalog_add c n' i p b) n i p a
                 = catalog_add (catalog_add c n i p a) n' i p b"
  by (auto simp: catalog_add_def fun_upd_twist)

lemma fold_catalog_add_twice:
  "fold (\<lambda>(k, a) c. catalog_add c (f a) i p a) as
     (fold (\<lambda>(k, a) c. catalog_add c (f a) i p a) as c)
   = fold (\<lambda>(k, a) c. catalog_add c (f a) i p a) as c"
  by (rule fold_twice [where key = "\<lambda>x. f (snd x)" and present = "\<lambda>k s. True"])
     (auto simp: catalog_add_same catalog_add_swap)

lemma update_swap_present:
  "k \<noteq> k' \<Longrightarrow> k' \<in> fst ` set al \<Longrightarrow>
   AList.update k v (AList.update k' v' al) = AList.update k' v' (AList.update k v al)"
  by (induction al) auto

lemma keys_update: "fst ` set (AList.update k v al) = insert k (fst ` set al)"
  by (induction al) auto

lemma fold_update_twice:
  "fold (\<lambda>(k, a). AList.update (f a) a) as (fold (\<lambda>(k, a). AList.update (f a) a) as al)
   = fold (\<lambda>(k, a). AList.update (f a) a) as al"
proof (rule fold_twice [where key = "\<lambda>x. f (snd x)" and present = "\<lambda>k al. k \<in> fst ` set al"],
    goal_cases)
  case 1
  then show ?case by (simp add: case_prod_unfold)
next
  case 2
  then show ?case unfolding case_prod_unfold by (rule update_swap_present)
next
  case 3
  show ?case by (simp add: case_prod_unfold keys_update)
next
  case 4
  then show ?case by (simp add: case_prod_unfold keys_update)
qed

lemma registerActions_twice:
  "registerActions (registerActions r node p as) node p as = registerActions r node p as"
  by (simp add: registerActions_eq fold_catalog_add_twice fold_update_twice)

lemma one_endpoint_add:
  "one_endpoint c n i \<or> n = n' \<Longrightarrow> one_endpoint (catalog_add c n' i p a) n i"
  by (auto simp: one_endpoint_def catalog_add_def)

lemma one_endpoint_fold_add:
  "one_endpoint c n i \<or> n \<in> f ` snd ` set as \<Longrightarrow>
   one_endpoint (fold (\<lambda>(k, a) c. catalog_add c (f a) i p a) as c) n i"
proof (induction as arbitrary: c)
  case Nil
  then show ?case by simp
next
  case (Cons x xs)
  show ?case
  proof (cases "n \<in> f ` snd ` set xs")
    case True
    then show ?thesis by (simp add: Cons.IH)
  next
    case False
    with Cons.prems have "one_endpoint (catalog_add c (f (snd x)) i p (snd x)) n i"
      by (intro one_endpoint_add) auto
    with Cons.IH [of "catalog_add c (f (snd x)) i p (snd x)"] show ?thesis
      by (simp add: case_prod_unfold)
  qed
qed

subsection \<open>The service item found for a descriptor\<close>

lemma find_first_match:
  "x \<in> set xs \<Longrightarrow> P x \<Longrightarrow> \<exists>y. find P xs = Some y \<and> y \<in> set xs \<and> P y"
  by (induction xs) auto

lemma target_iff:
  assumes "node_consistent r node"
  shows "ServiceCatalog_get r n v (node_id r node) = Some p \<longleftrightarrow>
         p \<in> set (services r) \<and> service_node (service_heap r p) = node
         \<and> service_key r p = (n, v)"
proof
  assume "ServiceCatalog_get r n v (node_id r node) = Some p"
  then have "p \<in> set (services r)" "service_matches r n v (node_id r node) p"
    by (simp_all add: ServiceCatalog_get_Some)
  with assms show "p \<in> set (services r) \<and> service_node (service_heap r p) = node
         \<and> service_key r p = (n, v)"
    by (auto simp: node_consistent_def service_matches_def service_equals_def service_key_def)
next
  assume p: "p \<in> set (services r) \<and> service_node (service_heap r p) = node
         \<and> service_key r p = (n, v)"
  then have "service_matches r n v (node_id r node) p"
    by (auto simp: service_matches_def service_equals_def service_key_def)
  with p obtain q where q: "ServiceCatalog_get r n v (node_id r node) = Some q"
    "q \<in> set (services r)" "service_matches r n v (node_id r node) q"
    unfolding ServiceCatalog_get_def using find_first_match by metis
  with assms have "service_node (service_heap r q) = node \<and> service_key r q = (n, v)"
    by (auto simp: node_consistent_def service_matches_def service_equals_def service_key_def)
  with assms p q(2) have "q = p"
    unfolding node_consistent_def by metis
  with q show "ServiceCatalog_get r n v (node_id r node) = Some p" by simp
qed

lemma target_None_iff:
  assumes "node_consistent r node"
  shows "ServiceCatalog_get r n v (node_id r node) = None \<longleftrightarrow>
         (\<forall>p\<in>set (services r). service_node (service_heap r p) = node
             \<longrightarrow> service_key r p \<noteq> (n, v))"
  using target_iff [OF assms, of n v] by (metis not_Some_eq)

lemma keys_fold_update:
  "fst ` set (fold (\<lambda>(k, a). AList.update (f a) a) as al) = fst ` set al \<union> f ` snd ` set as"
proof (induction as arbitrary: al)
  case Nil
  show ?case by simp
next
  case (Cons x xs)
  have "fst ` set (fold (\<lambda>(k, a). AList.update (f a) a) (x # xs) al)
          = fst ` set (AList.update (f (snd x)) (snd x) al) \<union> f ` snd ` set xs"
    using Cons.IH [of "AList.update (f (snd x)) (snd x) al"] by (simp add: case_prod_unfold)
  then show ?case unfolding keys_update by auto
qed

subsection \<open>The first loop of \<open>registerServices\<close>\<close>

lemma option_eq_by_Some: "(\<And>q. x = Some q \<longleftrightarrow> y = Some q) \<Longrightarrow> x = y"
  by (cases x; cases y) auto

lemma target_after_step:
  assumes inv: "node_consistent r node" and inv1: "node_consistent r1 node"
      and ids: "node_id r1 = node_id r"
      and sub: "set (services r) \<subseteq> set (services r1)"
      and old: "\<And>q. q \<in> set (services r) \<Longrightarrow>
                  service_node (service_heap r1 q) = service_node (service_heap r q)
                  \<and> service_key r1 q = service_key r q"
      and new: "\<And>q. q \<in> set (services r1) \<Longrightarrow> q \<notin> set (services r) \<Longrightarrow>
                  service_key r1 q = k0"
      and k: "(n, v) \<noteq> k0"
  shows "ServiceCatalog_get r1 n v (node_id r node) = ServiceCatalog_get r n v (node_id r node)"
proof (rule option_eq_by_Some)
  fix q
  have A: "ServiceCatalog_get r1 n v (node_id r node) = Some q \<longleftrightarrow>
        q \<in> set (services r1) \<and> service_node (service_heap r1 q) = node
        \<and> service_key r1 q = (n, v)"
    using target_iff [OF inv1, of n v q] ids by simp
  have B: "ServiceCatalog_get r n v (node_id r node) = Some q \<longleftrightarrow>
        q \<in> set (services r) \<and> service_node (service_heap r q) = node
        \<and> service_key r q = (n, v)"
    by (rule target_iff [OF inv])
  show "ServiceCatalog_get r1 n v (node_id r node) = Some q
        \<longleftrightarrow> ServiceCatalog_get r n v (node_id r node) = Some q"
  proof (cases "q \<in> set (services r)")
    case True
    with sub old [of q] show ?thesis unfolding A B by auto
  next
    case False
    with new [of q] k show ?thesis unfolding A B by auto
  qed
qed

subsection \<open>The second loop of \<open>registerServices\<close>\<close>


lemma remove_service_consistent:
  assumes "node_consistent r node"
  shows "node_consistent (remove_service r p) node"
  using assms
  by (auto simp: node_consistent_def allocated_def remove_service_fields service_key_def
        distinct_removeAll)

lemma unregisterService_fields [simp]:
  "node_id (unregisterService r n v i) = node_id r"
  "next_ref (unregisterService r n v i) = next_ref r"
  "broker_nodeID (unregisterService r n v i) = broker_nodeID r"
  by (simp_all add: unregisterService_def ServiceCatalog_remove_def remove_service_fields
        split: option.splits)

lemma unregisterService_services_subset:
  "set (services (unregisterService r n v i)) \<subseteq> set (services r)"
  by (auto simp: unregisterService_def ServiceCatalog_remove_def remove_service_fields
        split: option.splits)

lemma visitService_other_node:
  "service_node (service_heap r q) \<noteq> node \<Longrightarrow> visitService r node serviceList q = r"
  by (simp add: visitService_def)

lemma visitService_heap [simp]:
  "service_heap (visitService r node serviceList q) = service_heap r"
  "node_id (visitService r node serviceList q) = node_id r"
  by (simp_all add: visitService_def Let_def)

lemma visitService_services_subset:
  "set (services (visitService r node serviceList q)) \<subseteq> set (services r)"
  using unregisterService_services_subset by (auto simp: visitService_def Let_def)

lemma removeOldServices_keeps_service:
  assumes p: "p \<in> set (services r)" "service_node (service_heap r p) \<noteq> node"
      and ne: "\<And>q. q \<in> set (services r) \<Longrightarrow> service_node (service_heap r q) = node \<Longrightarrow>
                 \<not> list_ex (\<lambda>d. service_equals (service_heap r q) (svc_name d) (svc_version d))
                     serviceList \<Longrightarrow>
                 \<not> service_equals (service_heap r p)
                     (service_name (service_heap r q)) (service_version (service_heap r q))"
  shows "p \<in> set (services (removeOldServices r node serviceList))
         \<and> service_heap (removeOldServices r node serviceList) p = service_heap r p"
proof -
  let ?Q = "\<lambda>s. set (services s) \<subseteq> set (services r) \<and> service_heap s = service_heap r
                \<and> p \<in> set (services s)"
  let ?f = "\<lambda>k s. if k < length (services s)
                   then visitService s node serviceList (services s ! k) else s"
  have step: "?Q (?f k s)" if Q: "?Q s" for k s
  proof (cases "k < length (services s)")
    case False
    with Q show ?thesis by simp
  next
    case True
    define q where "q = services s ! k"
    from True Q have q: "q \<in> set (services s)" "q \<in> set (services r)"
      unfolding q_def by auto
    have "p \<in> set (services (visitService s node serviceList q))"
    proof (cases "service_node (service_heap r q) = node
                  \<and> \<not> list_ex (\<lambda>d. service_equals (service_heap r q) (svc_name d) (svc_version d))
                        serviceList")
      case False
      with Q show ?thesis by (auto simp: visitService_def Let_def)
    next
      case stale: True
      with ne [OF q(2)] have "\<not> service_equals (service_heap s p)
                     (service_name (service_heap s q)) (service_version (service_heap s q))"
        using Q by simp
      with Q have "p \<in> set (services (unregisterService s (service_name (service_heap s q))
                      (service_version (service_heap s q)) (Some (node_id s node))))"
        by (intro unregisterService_keeps_other) auto
      with stale Q show ?thesis by (simp add: visitService_def Let_def)
    qed
    moreover have "set (services (visitService s node serviceList q)) \<subseteq> set (services r)"
      using visitService_services_subset [of s node serviceList q] Q by blast
    ultimately show ?thesis using True Q by (simp add: q_def)
  qed
  have "?Q (fold ?f [0..<length (services r)] r)"
    by (rule fold_invariant [where Q = "\<lambda>x. True"]) (use p step in auto)
  then show ?thesis by (simp add: removeOldServices_def)
qed




subsection \<open>Both loops\<close>

subsection \<open>Evaluation of the scenarios\<close>

text \<open>The definitions that the evaluation of a concrete scenario unfolds.\<close>

lemmas model_defs =
  Registry_def scenario_ids_def add_action_def sub_action_def math_def local_math_def
  registerLocalService_def registerServices_def registerService_def
  ServiceCatalog_get_def ServiceCatalog_add_def ServiceCatalog_remove_def
  ServiceCatalog_removeAllByNodeID_def remove_service_def
  service_matches_def service_equals_def new_service_def service_update_def
  service_addAction_def service_addEvent_def
  registerActions_def registerEvents_def ActionCatalog_add_def EventCatalog_add_def
  ActionCatalog_remove_def EventCatalog_remove_def catalog_add_def catalog_get_def
  catalog_remove_def getEndpointByNodeID_def endpoint_at_def
  getActionEndpoints_def getActionEndpointByNodeId_def
  unregisterService_def unregisterServicesByNode_def unregisterAction_def unregisterEvent_def
  visitService_def removeOldServices_def
  nameless_def calc_def Let_def

lemma foreign_then_local_eval:
  "services foreign_then_local = [0, 1]"
  "service_node (service_heap foreign_then_local 0) = 3"
  "service_node (service_heap foreign_then_local (Suc 0)) = 0"
  "node_id foreign_then_local 3 = ''local''"
  "node_id foreign_then_local 0 = ''local''"
  "service_name (service_heap foreign_then_local 0) = Some ''math''"
  "service_version (service_heap foreign_then_local 0) = Some 1"
  by (simp_all add: foreign_then_local_def model_defs)

lemma scenario_AB_eval:
  "services scenario_AB = [0, Suc 0]"
  "node_id scenario_AB (Suc 0) = ''A''"
  "node_id scenario_AB 2 = ''B''"
  "service_node (service_heap scenario_AB 0) = Suc 0"
  "service_node (service_heap scenario_AB (Suc 0)) = 2"
  "service_name (service_heap scenario_AB (Suc 0)) = Some ''math''"
  "service_version (service_heap scenario_AB (Suc 0)) = Some (Suc 0)"
  "service_actions (service_heap scenario_AB (Suc 0))
     = [(''add'', add_action), (''sub'', sub_action)]"
  "ServiceCatalog_get scenario_AB (Some ''math'') (Some (Suc 0)) ''B'' = Some (Suc 0)"
  "getActionEndpointByNodeId scenario_AB ''add'' ''A''
     = Some \<lparr>ep_nodeID = ''A'', ep_service = 0, ep_item = add_action\<rparr>"
  "getActionEndpointByNodeId scenario_AB ''add'' ''B''
     = Some \<lparr>ep_nodeID = ''B'', ep_service = Suc 0, ep_item = add_action\<rparr>"
  "getActionEndpointByNodeId scenario_AB ''sub'' ''B''
     = Some \<lparr>ep_nodeID = ''B'', ep_service = Suc 0, ep_item = sub_action\<rparr>"
  by (simp_all add: scenario_AB_def model_defs)

lemma scenario_AB_more:
  "next_ref scenario_AB = 2"
  "service_name (service_heap scenario_AB 0) = Some ''math''"
  "service_version (service_heap scenario_AB 0) = Some (Suc 0)"
  "service_events (service_heap scenario_AB (Suc 0)) = []"
  "actions scenario_AB = [''add'' \<mapsto> [\<lparr>ep_nodeID = ''A'', ep_service = 0, ep_item = add_action\<rparr>,
                                       \<lparr>ep_nodeID = ''B'', ep_service = Suc 0, ep_item = add_action\<rparr>],
                          ''sub'' \<mapsto> [\<lparr>ep_nodeID = ''B'', ep_service = Suc 0, ep_item = sub_action\<rparr>]]"
  "events scenario_AB = Map.empty"
  by (simp_all add: scenario_AB_def model_defs fun_eq_iff)


section \<open>The claims\<close>

subsection \<open>Lookups that miss\<close>

text \<open>
  Claim C4. \<open>getActionEndpoints\<close> and \<open>getActionEndpointByNodeId\<close> have no failing path: an
  unknown action name gives an absent result, and when the name is unknown or its
  EndpointList holds no endpoint of the node, \<open>getActionEndpointByNodeId\<close> gives an absent
  result.
\<close>

theorem lookup_miss_is_absent:
  "(actions r actionName = None \<longrightarrow> getActionEndpoints r actionName = None) \<and>
   ((case actions r actionName of None \<Rightarrow> True
     | Some eps \<Rightarrow> nodeID \<notin> ep_nodeID ` set eps)
    \<longrightarrow> getActionEndpointByNodeId r actionName nodeID = None)"
  by (auto simp: getActionEndpoints_def getActionEndpointByNodeId_def catalog_get_def
        getEndpointByNodeID_def find_None_iff split: option.splits)

theorem lookup_miss_is_absent_witness:
  "getActionEndpoints local_math ''sub'' = None
   \<and> getActionEndpointByNodeId local_math ''add'' ''B'' = None"
  using lookup_miss_is_absent [of local_math "''sub''"]
        lookup_miss_is_absent [of local_math "''add''" "''B''"]
  by (simp add: model_defs)

subsection \<open>Removal entry points\<close>

text \<open>
  Claim C10. With the \<open>nodeID\<close> argument omitted or falsy, \<open>unregisterService\<close> removes under
  the broker's own node id: the call is the catalog's \<open>remove\<close> for that id, and the service
  item recorded under (name, version, broker id) is no longer in the catalog afterwards.
\<close>

theorem unregisterService_default_nodeID:
  assumes "nodeID = None \<or> nodeID = Some []"
  shows "unregisterService r name version nodeID
           = ServiceCatalog_remove r name version (broker_nodeID r)
         \<and> (\<forall>p. ServiceCatalog_get r name version (broker_nodeID r) = Some p
               \<longrightarrow> p \<notin> set (services (unregisterService r name version nodeID)))"
  using assms
  by (auto simp: unregisterService_def ServiceCatalog_remove_def remove_service_eq)

theorem unregisterService_default_nodeID_witness:
  "ServiceCatalog_get local_math (Some ''math'') (Some 1) ''local'' = Some 0
   \<and> 0 \<notin> set (services (unregisterService local_math (Some ''math'') (Some 1) None))"
  using unregisterService_default_nodeID [of None local_math "Some ''math''" "Some 1"]
  by (simp add: model_defs)

text \<open>
  Claim C5. Each removal entry point leaves the registry unchanged when its target does not
  exist: no service under the key, no service of the node id, no endpoint of the node under
  the action or event name. The registry state is one of the data model, in which a name is
  never mapped to an empty EndpointList (\<open>catalog_add_no_empty\<close>, \<open>catalog_remove_no_empty\<close>).
\<close>

theorem unregister_missing_target_noop:
  "(ServiceCatalog_get r name version
      (case nodeID of None \<Rightarrow> broker_nodeID r
       | Some n \<Rightarrow> if n = [] then broker_nodeID r else n) = None
    \<longrightarrow> unregisterService r name version nodeID = r)
   \<and> ((\<forall>p\<in>set (services r). node_id r (service_node (service_heap r p)) \<noteq> nid)
    \<longrightarrow> unregisterServicesByNode r nid = r)
   \<and> (getActionEndpointByNodeId r actionName (node_id r node) = None
        \<and> getActionEndpoints r actionName \<noteq> Some []
    \<longrightarrow> unregisterAction r node actionName = r)
   \<and> (endpoint_at (events r) eventName (node_id r node) = None
        \<and> catalog_get (events r) eventName \<noteq> Some []
    \<longrightarrow> unregisterEvent r node eventName = r)"
proof -
  have "filter (\<lambda>p. node_id r (service_node (service_heap r p)) = nid) (services r) = []"
    if "\<forall>p\<in>set (services r). node_id r (service_node (service_heap r p)) \<noteq> nid"
    using that by (simp add: filter_empty_conv)
  then show ?thesis
    by (auto simp: unregisterService_def ServiceCatalog_remove_def unregisterServicesByNode_def
          ServiceCatalog_removeAllByNodeID_def unregisterAction_def unregisterEvent_def
          ActionCatalog_remove_def EventCatalog_remove_def getActionEndpointByNodeId_eq
          getActionEndpoints_def catalog_get_def catalog_remove_absent)
qed

theorem unregister_missing_target_noop_witness:
  "unregisterService local_math (Some ''other'') (Some 1) None = local_math
   \<and> unregisterServicesByNode local_math ''B'' = local_math
   \<and> unregisterAction local_math 2 ''add'' = local_math
   \<and> unregisterEvent local_math 2 ''created'' = local_math"
  using unregister_missing_target_noop
          [of local_math "Some ''other''" "Some 1" None "''B''" "''add''" 2 "''created''"]
  by (simp add: model_defs)

subsection \<open>Local registration\<close>

text \<open>
  Claim C7. \<open>registerLocalService\<close> is not idempotent: two calls with the same descriptor
  append two service items (two fresh addresses) to the service catalog and to the local
  node's own list, both under the local node and with the descriptor's name and version, and
  the state after the second call differs from the state after the first.
\<close>

theorem registerLocalService_not_idempotent:
  "let r1 = registerLocalService r d; r2 = registerLocalService r1 d;
       p1 = next_ref r; p2 = Suc (next_ref r)
   in p1 \<noteq> p2
      \<and> services r1 = services r @ [p1]
      \<and> services r2 = services r @ [p1, p2]
      \<and> node_services r2 (localNode r2) = node_services r (localNode r) @ [p1, p2]
      \<and> service_node (service_heap r2 p1) = localNode r
      \<and> service_node (service_heap r2 p2) = localNode r
      \<and> service_name (service_heap r2 p1) = svc_name d
      \<and> service_name (service_heap r2 p2) = svc_name d
      \<and> service_version (service_heap r2 p1) = svc_version d
      \<and> service_version (service_heap r2 p2) = svc_version d
      \<and> r2 \<noteq> r1"
proof -
  have "services (registerLocalService (registerLocalService r d) d)
          \<noteq> services (registerLocalService r d)"
    by (simp add: registerLocalService_fields)
  then have "registerLocalService (registerLocalService r d) d \<noteq> registerLocalService r d"
    by metis
  moreover note registerLocalService_heap(2-4)
                  [of "registerLocalService r d" d, unfolded registerLocalService_fields]
  ultimately show ?thesis
    by (simp add: Let_def registerLocalService_fields registerLocalService_heap)
qed

subsection \<open>Descriptors without an actions map\<close>

text \<open>
  Claim C2, evaluated on the code. Node \<open>B\<close> has registered \<open>math\<close> with the actions
  \<open>add\<close> and \<open>sub\<close>; its next snapshot carries \<open>math\<close> without an actions map. The loop over
  the previous actions reads \<open>svc.actions[name]\<close> and throws.
\<close>

theorem missing_actions_map_throws:
  "(case registerServices (Registry ''local'' scenario_ids) 2
           [math (Some [(''add'', add_action), (''sub'', sub_action)])] of
      Inl err \<Rightarrow> False
    | Inr r \<Rightarrow> registerServices r 2 [math None] = Inl TypeError)"
  by (simp add: model_defs)

subsection \<open>Malformed descriptors\<close>

subsection \<open>The scan for stale services\<close>

text \<open>
  Claim C9, as the code has it. A second node object with the id of the local node registers
  \<open>math\<close> (service item 0), then the local node registers \<open>math\<close> (service item 1). An empty
  snapshot of the local node passes over item 0 and visits item 1, and removes by (name,
  version, node id): the first match is item 0, the service of the other node object.
\<close>

theorem foreign_node_service_removed:
  "services foreign_then_local = [0, 1]
   \<and> service_node (service_heap foreign_then_local 0) = 3
   \<and> node_id foreign_then_local 3 = node_id foreign_then_local 0
   \<and> 0 \<notin> set (services (removeOldServices foreign_then_local 0 []))
   \<and> (case registerServices foreign_then_local 0 [] of
         Inl err \<Rightarrow> False | Inr r \<Rightarrow> services r = [1])"
  by (simp add: foreign_then_local_def model_defs)

text \<open>
  Claim C9, amended. The scan leaves the registry as it is at a service item whose node is
  another object than the node argument. Such an item stays in the catalog, unchanged,
  provided that no stale service item of the node argument itself (owned by that very
  object, absent from the service list) has the same name and version.
\<close>

theorem removal_scan_by_node_identity:
  "(service_node (service_heap r q) \<noteq> node \<longrightarrow> visitService r node serviceList q = r)
   \<and> (p \<in> set (services r) \<and> service_node (service_heap r p) \<noteq> node
       \<and> (\<forall>q\<in>set (services r). service_node (service_heap r q) = node
             \<and> \<not> list_ex (\<lambda>d. service_equals (service_heap r q) (svc_name d) (svc_version d))
                   serviceList
           \<longrightarrow> \<not> service_equals (service_heap r p)
                   (service_name (service_heap r q)) (service_version (service_heap r q)))
      \<longrightarrow> p \<in> set (services (removeOldServices r node serviceList))
          \<and> service_heap (removeOldServices r node serviceList) p = service_heap r p)"
  using removeOldServices_keeps_service [of p r node serviceList] visitService_other_node
  by blast

theorem removal_scan_by_node_identity_witness:
  "visitService foreign_then_local 3 [] 1 = foreign_then_local
   \<and> 1 \<in> set (services (removeOldServices foreign_then_local 3 [math None]))"
proof -
  note scan = removal_scan_by_node_identity
                [where r = foreign_then_local and q = 1 and node = 3 and p = 1]
  have other: "service_node (service_heap foreign_then_local 1) \<noteq> 3"
    by (simp add: foreign_then_local_eval)
  have mem: "1 \<in> set (services foreign_then_local)"
    by (simp add: foreign_then_local_eval)
  have none_stale:
    "\<forall>q\<in>set (services foreign_then_local).
        service_node (service_heap foreign_then_local q) = 3
        \<and> \<not> list_ex (\<lambda>d. service_equals (service_heap foreign_then_local q)
                          (svc_name d) (svc_version d)) [math None]
        \<longrightarrow> \<not> service_equals (service_heap foreign_then_local 1)
                (service_name (service_heap foreign_then_local q))
                (service_version (service_heap foreign_then_local q))"
    by (simp add: foreign_then_local_eval service_equals_def math_def)
  from scan [where serviceList = "[]"] other
  have "visitService foreign_then_local 3 [] 1 = foreign_then_local"
    by blast
  moreover from scan [where serviceList = "[math None]"] other mem none_stale
  have "1 \<in> set (services (removeOldServices foreign_then_local 3 [math None]))"
    by blast
  ultimately show ?thesis by blast
qed

subsection \<open>A snapshot that omits an action\<close>




subsection \<open>Registering the same actions twice\<close>

text \<open>
  Claim C6. A second \<open>registerActions\<close> with the same node, service and actions map leaves
  the state of the first call unchanged, and after the call the EndpointList of every action
  name of the map holds exactly one endpoint of the node.
\<close>

theorem registerActions_idempotent:
  "registerActions (registerActions r node service as) node service as
     = registerActions r node service as
   \<and> (\<forall>(key, a)\<in>set as.
        \<exists>eps. getActionEndpoints (registerActions r node service as) (action_name a) = Some eps
            \<and> length (filter (\<lambda>e. ep_nodeID e = node_id r node) eps) = 1)"
proof -
  have "one_endpoint (actions (registerActions r node service as)) (action_name a) (node_id r node)"
    if "(key, a) \<in> set as" for key a
  proof -
    from that have "action_name a \<in> action_name ` snd ` set as" by force
    then show ?thesis
      by (simp add: registerActions_eq one_endpoint_fold_add)
  qed
  then show ?thesis
    by (auto simp: registerActions_twice one_endpoint_def getActionEndpoints_def catalog_get_def)
qed

theorem registerActions_idempotent_witness:
  "registerActions (registerActions (Registry ''local'' scenario_ids) 1 0 [(''add'', add_action)])
       1 0 [(''add'', add_action)]
     = registerActions (Registry ''local'' scenario_ids) 1 0 [(''add'', add_action)]
   \<and> (\<exists>eps. getActionEndpoints
              (registerActions (Registry ''local'' scenario_ids) 1 0 [(''add'', add_action)])
              ''add'' = Some eps
          \<and> length (filter (\<lambda>e. ep_nodeID e = ''A'') eps) = 1)"
  using registerActions_idempotent
          [of "Registry ''local'' scenario_ids" 1 0 "[(''add'', add_action)]"]
  by (simp add: add_action_def Registry_def scenario_ids_def)

subsection \<open>Snapshot convergence\<close>

end
